theory Spec2Isabelle
  imports Complex_Main
begin

section \<open>Numerical model\<close>

text \<open>
  The script \<^verbatim>\<open>HW11.PY\<close> solves the boundary-value problem
  \<open>y'' + (x+1) y' - 2 y = (1 - x\<^sup>2) e\<^sup>-\<^sup>x\<close>, \<open>y(0) = 1\<close>, \<open>y(1) = 2\<close> by three methods.

  Python floats and NumPy \<^verbatim>\<open>float64\<close> arrays are modelled by \<^typ>\<open>real\<close> and
  \<^typ>\<open>real list\<close>: every arithmetic operation is the exact one, with no rounding. The
  model and the program agree wherever all intermediate values are representable as
  binary floating-point numbers (as for the grids at the step sizes \<open>1\<close>, \<open>2\<close>, \<open>1/2\<close>,
  \<open>3/4\<close>); elsewhere the program works with rounded values, which the model does not
  follow. What is stated below for a whole range of step sizes is stated only where
  rounding cannot change it: the lengths of arrays, which routine is called with which
  arguments, and which exception ends a run.

  The routines of NumPy and SciPy that the script calls are not part of it. Those with a
  closed description (\<^verbatim>\<open>arange\<close>, \<^verbatim>\<open>zeros\<close>, indexing, \<^verbatim>\<open>diff\<close>, \<^verbatim>\<open>trapz\<close>, the
  direct solution of a linear system, the argument checks of \<^verbatim>\<open>solve_ivp\<close> and
  \<^verbatim>\<open>brentq\<close>) are written out after their documentation; the iterative numerical
  kernels (adaptive Runge-Kutta stepping, Brent's iteration, the constrained optimiser)
  are parameters of the solvers that use them.

  A raised Python exception is a value \<open>Inl e\<close> of type \<open>error + 'a\<close>.
\<close>

datatype error =
    ZeroDivisionError     \<comment> \<open>division of Python numbers by zero\<close>
  | IndexError            \<comment> \<open>index outside an array\<close>
  | ValueError_t_eval     \<comment> \<open>\<^verbatim>\<open>solve_ivp\<close>: values in \<^verbatim>\<open>t_eval\<close> outside \<^verbatim>\<open>t_span\<close> or unsorted\<close>
  | ValueError_bracket    \<comment> \<open>\<^verbatim>\<open>brentq\<close>: \<^verbatim>\<open>f(a)\<close> and \<^verbatim>\<open>f(b)\<close> have the same sign\<close>
  | ValueError_shape      \<comment> \<open>\<^verbatim>\<open>solve\<close>: matrix not square or right-hand side of another size\<close>
  | LinAlgError           \<comment> \<open>\<^verbatim>\<open>solve\<close>: singular matrix\<close>

type_synonym vec = "real list"
type_synonym mat = "real list list"

text \<open>Sequencing of computations that may raise: the first exception ends the run.\<close>

definition bnd :: "error + 'a \<Rightarrow> ('a \<Rightarrow> error + 'b) \<Rightarrow> error + 'b" where
  "bnd m f = (case m of Inl e \<Rightarrow> Inl e | Inr v \<Rightarrow> f v)"

subsection \<open>NumPy array primitives\<close>

text \<open>
  \<^verbatim>\<open>np.arange(start, stop, step)\<close> on Python scalars: the length is
  \<open>\<lceil>(stop - start) / step\<rceil>\<close> (a Python division, which raises for a zero step), no
  element when that is not positive, and element \<open>i\<close> is \<open>start + i * delta\<close> where
  \<open>delta = (start + step) - start\<close>.
\<close>

definition arange :: "real \<Rightarrow> real \<Rightarrow> real \<Rightarrow> error + vec" where
  "arange start stop step =
     (if step = 0 then Inl ZeroDivisionError
      else let len = \<lceil>(stop - start) / step\<rceil>; delta = (start + step) - start
           in if len \<le> 0 then Inr []
              else Inr (map (\<lambda>i. start + real i * delta) [0..<nat len]))"

text \<open>
  The evaluation grid; each of the three solvers builds it with the same expression
  \<^verbatim>\<open>np.arange(0, 1 + h, h)\<close>.
\<close>

definition grid :: "real \<Rightarrow> error + vec" where
  "grid h = arange 0 (1 + h) h"

text \<open>\<^verbatim>\<open>np.zeros(n)\<close> and \<^verbatim>\<open>np.zeros((n, m))\<close>.\<close>

definition zeros :: "nat \<Rightarrow> vec" where
  "zeros n = replicate n 0"

definition zeros2 :: "nat \<Rightarrow> nat \<Rightarrow> mat" where
  "zeros2 n m = replicate n (zeros m)"

text \<open>
  Indexing an axis of length \<open>n\<close>: a negative index counts from the end, and an index
  outside \<open>-n .. n-1\<close> raises.
\<close>

definition py_index :: "nat \<Rightarrow> int \<Rightarrow> error + nat" where
  "py_index n i =
     (let j = (if i < 0 then int n + i else i)
      in if 0 \<le> j \<and> j < int n then Inr (nat j) else Inl IndexError)"

definition getitem :: "vec \<Rightarrow> int \<Rightarrow> error + real" where
  "getitem v i = bnd (py_index (length v) i) (\<lambda>k. Inr (v ! k))"

definition setitem :: "vec \<Rightarrow> int \<Rightarrow> real \<Rightarrow> error + vec" where
  "setitem v i a = bnd (py_index (length v) i) (\<lambda>k. Inr (v[k := a]))"

definition setitem2 :: "mat \<Rightarrow> int \<Rightarrow> int \<Rightarrow> real \<Rightarrow> error + mat" where
  "setitem2 A i j a =
     bnd (py_index (length A) i) (\<lambda>r.
     bnd (py_index (length (A ! r)) j) (\<lambda>c.
     Inr (A[r := (A ! r)[c := a]])))"

text \<open>\<^verbatim>\<open>np.diff(x)\<close>: the differences of neighbouring entries.\<close>

definition diff :: "vec \<Rightarrow> vec" where
  "diff xs = map2 (\<lambda>b a. b - a) (tl xs) (butlast xs)"

text \<open>
  \<^verbatim>\<open>np.trapz(y, x)\<close>: the composite trapezoid rule
  \<^verbatim>\<open>(diff(x) * (y[1:] + y[:-1]) / 2.0).sum()\<close>.
\<close>

definition trapz :: "vec \<Rightarrow> vec \<Rightarrow> real" where
  "trapz ys xs =
     sum_list (map2 (\<lambda>d s. d * s / 2) (diff xs) (map2 (\<lambda>b a. b + a) (tl ys) (butlast ys)))"

definition dot :: "vec \<Rightarrow> vec \<Rightarrow> real" where
  "dot c y = sum_list (map2 (\<lambda>a b. a * b) c y)"

subsection \<open>\<^verbatim>\<open>scipy.linalg.solve\<close>\<close>

text \<open>
  The library solves \<open>A y = b\<close> by LU factorisation with partial pivoting and raises
  \<^verbatim>\<open>LinAlgError\<close> when a pivot column holds no non-zero entry. The model is Gaussian
  elimination on the list of equations (coefficient row, right-hand side): the first row
  whose leading coefficient is largest in absolute value is exchanged with the first row,
  the leading unknown is eliminated from the other rows, the smaller system is solved,
  and the leading unknown is found by back substitution. In exact arithmetic the result
  does not depend on the pivoting order.
\<close>

type_synonym eqn = "vec \<times> real"

fun argmax_abs :: "real list \<Rightarrow> nat" where
  "argmax_abs [] = 0"
| "argmax_abs (a # as) =
     (if as = [] then 0
      else let k = argmax_abs as in if \<bar>a\<bar> < \<bar>as ! k\<bar> then Suc k else 0)"

definition eliminate :: "eqn \<Rightarrow> eqn \<Rightarrow> eqn" where
  "eliminate p e =
     (let m = hd (fst e) / hd (fst p)
      in (map2 (\<lambda>u v. u - m * v) (tl (fst e)) (tl (fst p)), snd e - m * snd p))"

definition swap_pivot :: "eqn list \<Rightarrow> eqn list" where
  "swap_pivot rows =
     (let k = argmax_abs (map (\<lambda>e. hd (fst e)) rows)
      in rows[0 := rows ! k, k := rows ! 0])"

function gauss :: "eqn list \<Rightarrow> error + vec" where
  "gauss rows =
     (if rows = [] then Inr []
      else let p = hd (swap_pivot rows); rest = tl (swap_pivot rows)
           in if hd (fst p) = 0 then Inl LinAlgError
              else bnd (gauss (map (eliminate p) rest))
                     (\<lambda>ys. Inr ((snd p - dot (tl (fst p)) ys) / hd (fst p) # ys)))"
  by pat_completeness auto
termination
  by (relation "measure length") (auto simp: swap_pivot_def Let_def)

declare gauss.simps [simp del]

definition solve :: "mat \<Rightarrow> vec \<Rightarrow> error + vec" where
  "solve A b =
     (if list_all (\<lambda>row. length row = length A) A \<and> length b = length A
      then gauss (zip A b)
      else Inl ValueError_shape)"

section \<open>(a) Shooting method\<close>

type_synonym state = "real \<times> real"
type_synonym rhs = "real \<Rightarrow> state \<Rightarrow> state"

definition ode_system :: rhs where
  "ode_system x Y =
     (case Y of (y, dy) \<Rightarrow>
        let d2y = - (x + 1) * dy + 2 * y + (1 - x\<^sup>2) * exp (- x)
        in (dy, d2y))"

text \<open>
  The adaptive Runge-Kutta stepping of \<^verbatim>\<open>solve_ivp\<close> is a parameter \<open>rk\<close>: from the
  right-hand side, the interval, the initial state, the sample points and the two
  tolerances it gives the two rows of \<^verbatim>\<open>sol.y\<close>, the values of \<open>y\<close> and of \<open>y'\<close> at the
  sample points it reached. What \<^verbatim>\<open>solve_ivp\<close> checks before it integrates is written
  out: sample points outside the interval, or not strictly monotone, raise \<^verbatim>\<open>ValueError\<close>.
\<close>

type_synonym integrator = "rhs \<Rightarrow> real \<times> real \<Rightarrow> state \<Rightarrow> vec \<Rightarrow> real \<Rightarrow> real \<Rightarrow> vec \<times> vec"

definition solve_ivp ::
  "integrator \<Rightarrow> rhs \<Rightarrow> real \<times> real \<Rightarrow> state \<Rightarrow> vec \<Rightarrow> real \<Rightarrow> real \<Rightarrow> error + vec \<times> vec" where
  "solve_ivp rk f t_span y0 t_eval rtol atol =
     (let t0 = fst t_span; tf = snd t_span
      in if list_ex (\<lambda>t. t < min t0 tf \<or> max t0 tf < t) t_eval then Inl ValueError_t_eval
         else if (t0 < tf \<and> list_ex (\<lambda>d. d \<le> 0) (diff t_eval))
               \<or> (tf < t0 \<and> list_ex (\<lambda>d. 0 \<le> d) (diff t_eval)) then Inl ValueError_t_eval
         else Inr (rk f t_span y0 t_eval rtol atol))"

definition solve_shooting :: "integrator \<Rightarrow> real \<Rightarrow> vec \<Rightarrow> error + vec \<times> vec" where
  "solve_shooting rk alpha x_eval =
     solve_ivp rk ode_system (0, 1) (1, alpha) x_eval (1 / 10 ^ 8) (1 / 10 ^ 8)"

text \<open>The closure \<^verbatim>\<open>boundary_residual\<close> of \<^verbatim>\<open>shooting_method\<close>: \<^verbatim>\<open>sol.y[0, -1] - 2\<close>.\<close>

definition boundary_residual :: "integrator \<Rightarrow> vec \<Rightarrow> real \<Rightarrow> error + real" where
  "boundary_residual rk x_eval alpha =
     bnd (solve_shooting rk alpha x_eval) (\<lambda>sol.
     bnd (getitem (fst sol) (- 1)) (\<lambda>y_end. Inr (y_end - 2)))"

text \<open>
  \<^verbatim>\<open>root_scalar(f, bracket=[a, b], method='brentq')\<close>. The routine evaluates \<open>f\<close> at both
  ends of the bracket, raises \<^verbatim>\<open>ValueError\<close> when the two values have the same sign,
  returns an end that is a root, and otherwise runs Brent's iteration, the parameter
  \<open>brent\<close>, with the library's default tolerances \<^verbatim>\<open>xtol = 2e-12\<close>,
  \<^verbatim>\<open>rtol = 4 * eps\<close> and at most 100 iterations. The result carries the root and a
  convergence flag; an iteration that does not converge raises nothing.
\<close>

record root_results =
  root :: real
  converged :: bool

type_synonym root_iteration =
  "(real \<Rightarrow> error + real) \<Rightarrow> real \<Rightarrow> real \<Rightarrow> real \<Rightarrow> real \<Rightarrow> nat \<Rightarrow> error + root_results"

definition brentq_xtol :: real where
  "brentq_xtol = 2 / 10 ^ 12"

definition brentq_rtol :: real where
  "brentq_rtol = 4 / 2 ^ 52"

definition brentq_maxiter :: nat where
  "brentq_maxiter = 100"

definition root_scalar ::
  "root_iteration \<Rightarrow> (real \<Rightarrow> error + real) \<Rightarrow> real \<times> real \<Rightarrow> error + root_results" where
  "root_scalar brent f bracket =
     (let a = fst bracket; b = snd bracket
      in bnd (f a) (\<lambda>fa.
         bnd (f b) (\<lambda>fb.
         if 0 < fa * fb then Inl ValueError_bracket
         else if fa = 0 then Inr \<lparr>root = a, converged = True\<rparr>
         else if fb = 0 then Inr \<lparr>root = b, converged = True\<rparr>
         else brent f a b brentq_xtol brentq_rtol brentq_maxiter)))"

definition shooting_method :: "integrator \<Rightarrow> root_iteration \<Rightarrow> real \<Rightarrow> error + vec \<times> vec" where
  "shooting_method rk brent h =
     bnd (grid h) (\<lambda>x_eval.
     bnd (root_scalar brent (boundary_residual rk x_eval) (- 10, 10)) (\<lambda>sol.
     let best_alpha = root sol
     in bnd (solve_shooting rk best_alpha x_eval) (\<lambda>final_sol.
        Inr (x_eval, fst final_sol))))"

section \<open>(b) Finite-difference method\<close>

text \<open>
  The body of the loop \<^verbatim>\<open>for i in range(1, n - 1)\<close>, on the pair of the matrix and the
  right-hand side. The step \<open>h\<close> is not zero here, since the grid was built with it.
\<close>

definition fd_row :: "real \<Rightarrow> vec \<Rightarrow> nat \<Rightarrow> mat \<times> vec \<Rightarrow> error + mat \<times> vec" where
  "fd_row h x i Ab =
     bnd (getitem x (int i)) (\<lambda>xi.
     let h2 = h\<^sup>2
     in bnd (setitem2 (fst Ab) (int i) (int i - 1) (1 / h2 + (xi + 1) / (2 * h))) (\<lambda>A1.
        bnd (setitem2 A1 (int i) (int i) (- 2 / h2 - 2)) (\<lambda>A2.
        bnd (setitem2 A2 (int i) (int i + 1) (1 / h2 - (xi + 1) / (2 * h))) (\<lambda>A3.
        bnd (setitem (snd Ab) (int i) ((1 - xi\<^sup>2) * exp (- xi))) (\<lambda>b1.
        Inr (A3, b1))))))"

fun fd_loop :: "real \<Rightarrow> vec \<Rightarrow> nat list \<Rightarrow> mat \<times> vec \<Rightarrow> error + mat \<times> vec" where
  "fd_loop h x [] Ab = Inr Ab"
| "fd_loop h x (i # is) Ab = bnd (fd_row h x i Ab) (fd_loop h x is)"

text \<open>Lines 31 to 48: the grid, the matrix and the right-hand side.\<close>

definition fd_system :: "real \<Rightarrow> error + vec \<times> mat \<times> vec" where
  "fd_system h =
     bnd (grid h) (\<lambda>x.
     let n = length x; A = zeros2 n n; b = zeros n
     in bnd (setitem2 A 0 0 1) (\<lambda>A1.
        bnd (setitem b 0 1) (\<lambda>b1.
        bnd (setitem2 A1 (- 1) (- 1) 1) (\<lambda>A2.
        bnd (setitem b1 (- 1) 2) (\<lambda>b2.
        bnd (fd_loop h x [1..<n - 1] (A2, b2)) (\<lambda>Ab.
        Inr (x, fst Ab, snd Ab)))))))"

definition finite_difference_method :: "real \<Rightarrow> error + vec \<times> vec" where
  "finite_difference_method h =
     bnd (fd_system h) (\<lambda>s.
     bnd (solve (fst (snd s)) (snd (snd s))) (\<lambda>y.
     Inr (fst s, y)))"

section \<open>(c) Variational method\<close>

type_synonym params = "real \<times> real \<times> real"

definition trial :: "real \<Rightarrow> params \<Rightarrow> real" where
  "trial x p = (case p of (a, b, c) \<Rightarrow> 1 + a * x + b * x\<^sup>2 + c * x ^ 3)"

text \<open>
  The closure \<^verbatim>\<open>residual_squared\<close>, on the grid \<open>xs\<close>; the array expressions of the
  source act entry by entry.
\<close>

definition residual_squared :: "vec \<Rightarrow> params \<Rightarrow> real" where
  "residual_squared xs p =
     (case p of (a, b, c) \<Rightarrow>
        let r = map (\<lambda>x. let y = trial x (a, b, c);
                             dy = a + 2 * b * x + 3 * c * x\<^sup>2;
                             d2y = 2 * b + 6 * c * x
                         in d2y + (x + 1) * dy - 2 * y - (1 - x\<^sup>2) * exp (- x)) xs
        in trapz (map (\<lambda>v. v\<^sup>2) r) xs)"

text \<open>
  \<^verbatim>\<open>minimize(fun, x0, constraints=cons)\<close> with one equality constraint runs the
  library's constrained optimiser, the parameter \<open>opt\<close>, on the objective, the starting
  point and the constraint function. It returns a result with the parameters found and a
  success flag, and raises nothing when it does not converge.
\<close>

record optimize_result =
  res_x :: params
  res_success :: bool

type_synonym optimizer = "(params \<Rightarrow> real) \<Rightarrow> params \<Rightarrow> (params \<Rightarrow> real) \<Rightarrow> optimize_result"

definition minimize ::
  "optimizer \<Rightarrow> (params \<Rightarrow> real) \<Rightarrow> params \<Rightarrow> (params \<Rightarrow> real) \<Rightarrow> optimize_result" where
  "minimize opt f x0 cons = opt f x0 cons"

text \<open>
  The function of the equality constraint \<^verbatim>\<open>cons\<close>, \<^verbatim>\<open>lambda p: trial(1, *p) - 2\<close>; the
  optimiser is to keep it at zero.
\<close>

definition cons_fun :: "params \<Rightarrow> real" where
  "cons_fun p = trial 1 p - 2"

definition variational_method :: "optimizer \<Rightarrow> real \<Rightarrow> error + vec \<times> vec" where
  "variational_method opt h =
     bnd (grid h) (\<lambda>x.
     let cons = cons_fun;
         res = minimize opt (residual_squared x) (0, 0, 0) cons;
         y = map (\<lambda>t. trial t (res_x res)) x
     in Inr (x, y))"

section \<open>The script\<close>

text \<open>
  The table loop \<^verbatim>\<open>for i in range(len(x_fd))\<close> reads entry \<open>i\<close> of four arrays; the
  row of the table is the four numbers it prints.
\<close>

fun print_rows :: "nat list \<Rightarrow> vec \<Rightarrow> vec \<Rightarrow> vec \<Rightarrow> vec \<Rightarrow> error + (real \<times> real \<times> real \<times> real) list" where
  "print_rows [] x_fd y_shoot y_fd y_var = Inr []"
| "print_rows (i # is) x_fd y_shoot y_fd y_var =
     bnd (getitem x_fd (int i)) (\<lambda>a.
     bnd (getitem y_shoot (int i)) (\<lambda>b.
     bnd (getitem y_fd (int i)) (\<lambda>c.
     bnd (getitem y_var (int i)) (\<lambda>d.
     bnd (print_rows is x_fd y_shoot y_fd y_var) (\<lambda>rows.
     Inr ((a, b, c, d) # rows))))))"

record report =
  table :: "(real \<times> real \<times> real \<times> real) list"
  curves :: "(vec \<times> vec) list"

text \<open>
  Lines 76 to 103 with the step size as a parameter; the script itself sets \<open>h = 0.1\<close>.
  An exception in a solver ends the script before anything is printed or plotted.
\<close>

definition script :: "integrator \<Rightarrow> root_iteration \<Rightarrow> optimizer \<Rightarrow> real \<Rightarrow> error + report" where
  "script rk brent opt h =
     bnd (shooting_method rk brent h) (\<lambda>shoot.
     bnd (finite_difference_method h) (\<lambda>fd.
     bnd (variational_method opt h) (\<lambda>var.
     bnd (print_rows [0..<length (fst fd)] (fst fd) (snd shoot) (snd fd) (snd var)) (\<lambda>rows.
     Inr \<lparr>table = rows, curves = [shoot, fd, var]\<rparr>))))"

definition main :: "integrator \<Rightarrow> root_iteration \<Rightarrow> optimizer \<Rightarrow> error + report" where
  "main rk brent opt = script rk brent opt (1 / 10)"

section \<open>The linear system as the specification writes it\<close>

text \<open>
  Entry \<open>(i, j)\<close> of the matrix and entry \<open>i\<close> of the right-hand side that the
  specification gives for a grid \<open>x\<close> of \<open>n + 1\<close> points (so \<open>n = length x - 1\<close>): rows
  \<open>0\<close> and \<open>n\<close> are the boundary rows, the rows between them carry the three coefficients
  of the difference equation.
\<close>

definition spec_A :: "real \<Rightarrow> vec \<Rightarrow> nat \<Rightarrow> nat \<Rightarrow> real" where
  "spec_A h x i j =
     (if i = 0 \<or> i = length x - 1 then (if j = i then 1 else 0)
      else if j = i - 1 then 1 / h\<^sup>2 + (x ! i + 1) / (2 * h)
      else if j = i then - 2 / h\<^sup>2 - 2
      else if j = i + 1 then 1 / h\<^sup>2 - (x ! i + 1) / (2 * h)
      else 0)"

definition spec_b :: "real \<Rightarrow> vec \<Rightarrow> nat \<Rightarrow> real" where
  "spec_b h x i =
     (if i = 0 then 1
      else if i = length x - 1 then 2
      else (1 - (x ! i)\<^sup>2) * exp (- (x ! i)))"

text \<open>
  The residual of the trial function as the specification writes it,
  \<open>r(x) = y''(x) + (x + 1) y'(x) - 2 y(x) - (1 - x\<^sup>2) e\<^sup>-\<^sup>x\<close>, with the first and second
  derivative of the cubic written out.
\<close>

definition trial' :: "real \<Rightarrow> params \<Rightarrow> real" where
  "trial' x p = (case p of (a, b, c) \<Rightarrow> a + 2 * b * x + 3 * c * x\<^sup>2)"

definition trial'' :: "real \<Rightarrow> params \<Rightarrow> real" where
  "trial'' x p = (case p of (a, b, c) \<Rightarrow> 2 * b + 6 * c * x)"

definition spec_residual :: "params \<Rightarrow> real \<Rightarrow> real" where
  "spec_residual p x = trial'' x p + (x + 1) * trial' x p - 2 * trial x p - (1 - x\<^sup>2) * exp (- x)"

section \<open>Stand-ins for the library routines\<close>

text \<open>
  Simple routines of the three parameter types, on which the solvers can be run to the
  end: an integrator that follows the initial slope, one that stays at the initial value,
  a root iteration that takes one secant step through the ends of the bracket, an
  optimiser that returns the line \<open>y = 1 + x\<close>, and one that gives up at the starting
  point and reports failure.

  Two more stand for what the library does when it does not succeed: \<^verbatim>\<open>solve_ivp\<close>
  returns the samples it reached and a status, and \<^verbatim>\<open>root_scalar\<close> returns its last
  iterate and a convergence flag; neither raises. The integrator \<open>cut_short\<close> follows
  the initial slope and stops before the last sample point; the root iteration
  \<open>no_progress\<close> returns the middle of the bracket and reports no convergence.
\<close>

definition straight_line :: integrator where
  "straight_line f t_span y0 t_eval rtol atol =
     (map (\<lambda>t. fst y0 + snd y0 * (t - fst t_span)) t_eval, map (\<lambda>t. snd y0) t_eval)"

definition frozen :: integrator where
  "frozen f t_span y0 t_eval rtol atol = (map (\<lambda>t. fst y0) t_eval, map (\<lambda>t. snd y0) t_eval)"

definition secant_step :: root_iteration where
  "secant_step f a b xtol rtol maxiter =
     bnd (f a) (\<lambda>fa.
     bnd (f b) (\<lambda>fb.
     Inr \<lparr>root = a - fa * (b - a) / (fb - fa), converged = True\<rparr>))"

definition cut_short :: integrator where
  "cut_short f t_span y0 t_eval rtol atol =
     (butlast (map (\<lambda>t. fst y0 + snd y0 * (t - fst t_span)) t_eval),
      butlast (map (\<lambda>t. snd y0) t_eval))"

definition no_progress :: root_iteration where
  "no_progress f a b xtol rtol maxiter = Inr \<lparr>root = (a + b) / 2, converged = False\<rparr>"

definition line_fit :: optimizer where
  "line_fit f x0 cons = \<lparr>res_x = (1, 0, 0), res_success = True\<rparr>"

definition gives_up :: optimizer where
  "gives_up f x0 cons = \<lparr>res_x = x0, res_success = False\<rparr>"


section \<open>The evaluation grid\<close>

lemma grid_pos:
  assumes "0 < h"
  shows "grid h = Inr (map (\<lambda>i. real i * h) [0..<nat \<lceil>1 / h\<rceil> + 1])"
proof -
  have len: "\<lceil>(1 + h - 0) / h\<rceil> = \<lceil>1 / h\<rceil> + 1"
    using assms by (simp add: add_divide_distrib)
  have pos: "0 \<le> \<lceil>1 / h\<rceil>"
    using ceiling_mono [of 0 "1 / h"] assms by simp
  have "nat (\<lceil>1 / h\<rceil> + 1) = nat \<lceil>1 / h\<rceil> + nat 1"
    using pos by (intro nat_add_distrib) simp_all
  then have "nat (\<lceil>1 / h\<rceil> + 1) = nat \<lceil>1 / h\<rceil> + 1"
    by simp
  with len pos assms show ?thesis
    by (simp add: grid_def arange_def Let_def del: upt_Suc)
qed

lemma ceil_times:
  assumes "0 < (h::real)"
  shows "1 \<le> of_int \<lceil>1 / h\<rceil> * h" "of_int \<lceil>1 / h\<rceil> * h < 1 + h"
proof -
  have "1 / h \<le> of_int \<lceil>1 / h\<rceil>" by (rule le_of_int_ceiling)
  then have "1 / h * h \<le> of_int \<lceil>1 / h\<rceil> * h"
    using assms by (intro mult_right_mono) simp_all
  then show "1 \<le> of_int \<lceil>1 / h\<rceil> * h"
    using assms by simp
  have "of_int \<lceil>1 / h\<rceil> < 1 / h + 1" by linarith
  then have "of_int \<lceil>1 / h\<rceil> * h < (1 / h + 1) * h"
    using assms by (simp only: mult_less_cancel_right_pos)
  then show "of_int \<lceil>1 / h\<rceil> * h < 1 + h"
    using assms by (simp add: distrib_right)
qed

lemma grid_ends:
  assumes "0 < h" "grid h = Inr x"
  shows "x \<noteq> []" "hd x = 0" "1 \<le> last x" "last x \<in> set x"
proof -
  have x: "x = map (\<lambda>i. real i * h) [0..<nat \<lceil>1 / h\<rceil> + 1]"
    using grid_pos [OF assms(1)] assms(2) by simp
  show ne: "x \<noteq> []"
    by (simp add: x)
  have pos: "0 \<le> \<lceil>1 / h\<rceil>"
    using ceiling_mono [of 0 "1 / h"] assms(1) by simp
  show "hd x = 0"
    by (simp add: x hd_map upt_rec [of 0])
  have "last x = real (nat \<lceil>1 / h\<rceil>) * h"
    by (simp add: x)
  then have "last x = of_int \<lceil>1 / h\<rceil> * h"
    using pos by simp
  then show "1 \<le> last x"
    using ceil_times(1) [OF assms(1)] by simp
  show "last x \<in> set x"
    using ne by simp
qed

lemma grid_length_ge2:
  assumes "0 < h" "grid h = Inr x"
  shows "2 \<le> length x"
proof -
  have "0 < 1 / h" using assms(1) by simp
  then have "0 < \<lceil>1 / h\<rceil>" by simp
  then have "1 \<le> nat \<lceil>1 / h\<rceil>" by linarith
  with grid_pos [OF assms(1)] assms(2) show ?thesis by auto
qed

lemma grid_interior_lt_1:
  assumes "0 < h" "grid h = Inr x" "i + 1 < length x"
  shows "x ! i = real i * h" "0 \<le> x ! i" "x ! i < 1"
proof -
  have x: "x = map (\<lambda>i. real i * h) [0..<nat \<lceil>1 / h\<rceil> + 1]"
    using grid_pos [OF assms(1)] assms(2) by simp
  have i: "i < nat \<lceil>1 / h\<rceil>"
    using assms(3) by (simp add: x)
  show xi: "x ! i = real i * h"
    using i by (simp add: x nth_append del: upt_Suc)
  show "0 \<le> x ! i"
    using assms(1) by (simp add: xi)
  have "int i < \<lceil>1 / h\<rceil>" using i by linarith
  then have "real i < 1 / h"
    by (simp add: less_ceiling_iff)
  then have "real i * h < 1 / h * h"
    using assms(1) by (simp only: mult_less_cancel_right_pos)
  then show "x ! i < 1"
    using assms(1) by (simp add: xi)
qed


text \<open>
  C5: the grid is to run from \<open>0\<close> to \<open>1\<close> in \<open>\<lfloor>1/h\<rfloor> + 1\<close> points and to end at exactly \<open>1\<close>;
  the source relies on it, where it comments the last row of the linear system with
  \<^verbatim>\<open>y(1) = 2\<close> and integrates over the interval \<open>[0, 1]\<close>. The builder does not arrange
  it. At the step \<open>3/4\<close>, which lies in \<open>(0, 1]\<close>, it returns \<open>[0, 3/4, 3/2]\<close>: three entries
  where \<open>\<lfloor>1/h\<rfloor> + 1 = 2\<close>, and a final entry \<open>3/2\<close>, not \<open>1\<close>. The three grid points are binary
  fractions, and the length \<open>\<lceil>(7/4) / (3/4)\<rceil> = 3\<close> does not depend on rounding, so the
  program computes exactly this grid.
\<close>

theorem grid_not_clamped:
  "(0::real) < 3 / 4 \<and> (3 / 4 :: real) \<le> 1
   \<and> grid (3 / 4) = Inr [0, 3 / 4, 3 / 2]
   \<and> length [0, 3 / 4, 3 / 2 :: real] \<noteq> nat \<lfloor>1 / (3 / 4 :: real)\<rfloor> + 1
   \<and> last [0, 3 / 4, 3 / 2 :: real] \<noteq> 1"
  by (simp add: grid_def arange_def upt_rec)

text \<open>
  C6, as stated, fails: for the step \<open>h = 2 > 1\<close> grid construction raises nothing and
  returns the grid \<open>[0, 2]\<close>.
\<close>

theorem grid_accepts_large_step:
  "(1::real) < 2 \<and> grid 2 = Inr [0, 2]"
  by (simp add: grid_def arange_def upt_rec)

text \<open>
  C6, amended: grid construction validates nothing. For every \<open>h\<close> with \<open>1 < h < 2\<^sup>5\<^sup>3\<close> it
  returns the two-point grid \<open>[0, h]\<close>; for every \<open>h < -1\<close> the one-point grid \<open>[0]\<close>; for
  every \<open>h\<close> with \<open>-1 \<le> h \<le> -2\<^sup>-\<^sup>6\<^sup>2\<close> the empty grid; for \<open>h = 0\<close> it raises the division by zero
  of the length computation. The two bounds keep the statement where the program's
  double-precision length \<open>\<lceil>(1 + h) / h\<rceil>\<close> is the one of the model: from \<open>2\<^sup>5\<^sup>3\<close> on the
  program has \<open>1 + h = h\<close>, and for negative steps closer to zero than \<open>2\<^sup>-\<^sup>6\<^sup>3\<close> the length
  leaves the range of array sizes.
\<close>

theorem grid_no_validation:
  "(1 < h \<and> h < 2 ^ 53 \<longrightarrow> grid h = Inr [0, h])
   \<and> (h < - 1 \<longrightarrow> grid h = Inr [0])
   \<and> (- 1 \<le> h \<and> h \<le> - (1 / 2 ^ 62) \<longrightarrow> grid h = Inr [])
   \<and> grid 0 = Inl ZeroDivisionError"
proof -
  have big: "grid h = Inr [0, h]" if "1 < h"
  proof -
    have "\<lceil>1 / h\<rceil> = 1"
      using that by (simp add: ceiling_eq_iff)
    then show ?thesis
      using that grid_pos [of h] by (simp add: upt_rec)
  qed
  have neg1: "grid h = Inr [0]" if "h < - 1"
  proof -
    have "0 < (1 + h) / h" "(1 + h) / h \<le> 1"
      using that by (simp_all add: field_simps zero_less_divide_iff)
    then have "\<lceil>(1 + h) / h\<rceil> = 1"
      by (simp add: ceiling_eq_iff)
    then show ?thesis
      using that by (simp add: grid_def arange_def upt_rec)
  qed
  have neg2: "grid h = Inr []" if "- 1 \<le> h" "h < 0"
  proof -
    have "(1 + h) / h \<le> 0"
      using that by (simp add: divide_le_0_iff)
    then have "\<lceil>(1 + h) / h\<rceil> \<le> 0"
      by (simp add: ceiling_le_iff)
    then show ?thesis
      using that by (simp add: grid_def arange_def)
  qed
  have small: "h < 0" if "h \<le> - (1 / 2 ^ 62)"
  proof -
    have "- (1 / 2 ^ 62) < (0::real)" by simp
    with that show ?thesis by (rule le_less_trans)
  qed
  have zero: "grid 0 = Inl ZeroDivisionError"
    by (simp add: grid_def arange_def)
  show ?thesis using big neg1 neg2 small zero by blast
qed

text \<open>
  The amended C6 at the steps \<open>2\<close>, \<open>-2\<close>, \<open>-1/2\<close> and \<open>0\<close>.
\<close>

theorem grid_no_validation_witness:
  "(1::real) < 2 \<and> (2::real) < 2 ^ 53 \<and> grid 2 = Inr [0, 2]
   \<and> (- 2 :: real) < - 1 \<and> grid (- 2) = Inr [0]
   \<and> (- 1 :: real) \<le> - 1 / 2 \<and> (- 1 / 2 :: real) \<le> - (1 / 2 ^ 62) \<and> grid (- 1 / 2) = Inr []
   \<and> grid 0 = Inl ZeroDivisionError"
  using grid_no_validation [of 2] grid_no_validation [of "- 2"] grid_no_validation [of "- 1 / 2"]
  by simp

section \<open>Gaussian elimination\<close>

text \<open>
  Two facts about \<open>gauss\<close> on a square system. When it returns a vector, the vector
  satisfies every equation. When it raises, the matrix is singular: some non-zero vector
  is mapped to zero by every row.
\<close>

lemma dot_Nil [simp]: "dot [] y = 0" "dot c [] = 0"
  by (simp_all add: dot_def)

lemma dot_Cons [simp]: "dot (a # as) (b # bs) = a * b + dot as bs"
  by (simp add: dot_def)

lemma dot_eliminate:
  "length a = length b \<Longrightarrow> length b = length y \<Longrightarrow>
   dot (map2 (\<lambda>u v. u - m * v) a b) y = dot a y - m * dot b y"
  by (induction a b y rule: list_induct3) (simp_all add: algebra_simps)

lemma dot_zeros [simp]: "dot c (replicate n 0) = 0"
proof (induction c arbitrary: n)
  case Nil
  then show ?case by simp
next
  case (Cons a c)
  then show ?case by (cases n) simp_all
qed

lemma dot_sum: "length c = length y \<Longrightarrow> dot c y = (\<Sum>j<length y. c ! j * y ! j)"
proof -
  assume len: "length c = length y"
  have "dot c y = (\<Sum>j = 0..<length (map2 (\<lambda>a b. a * b) c y). map2 (\<lambda>a b. a * b) c y ! j)"
    unfolding dot_def by (rule sum_list_sum_nth)
  also have "\<dots> = (\<Sum>j = 0..<length y. c ! j * y ! j)"
    using len by (intro sum.cong) simp_all
  finally show ?thesis
    by (simp add: atLeast0LessThan)
qed

lemma argmax_abs_less: "xs \<noteq> [] \<Longrightarrow> argmax_abs xs < length xs"
  by (induction xs) (auto simp: Let_def)

lemma argmax_abs_max: "j < length xs \<Longrightarrow> \<bar>xs ! j\<bar> \<le> \<bar>xs ! argmax_abs xs\<bar>"
proof (induction xs arbitrary: j)
  case Nil
  then show ?case by simp
next
  case (Cons a as)
  show ?case
  proof (cases j)
    case 0
    then show ?thesis by (auto simp: Let_def)
  next
    case (Suc k)
    with Cons.prems have "k < length as" by simp
    from Cons.IH [OF this] Suc this show ?thesis
      by (auto simp: Let_def)
  qed
qed

lemma swap_pivot_props:
  assumes "rows \<noteq> []"
  shows "length (swap_pivot rows) = length rows"
    and "set (swap_pivot rows) = set rows"
    and "\<forall>e\<in>set rows. \<bar>hd (fst e)\<bar> \<le> \<bar>hd (fst (hd (swap_pivot rows)))\<bar>"
proof -
  define k where "k = argmax_abs (map (\<lambda>e. hd (fst e)) rows)"
  have k: "k < length rows"
    using argmax_abs_less [of "map (\<lambda>e. hd (fst e)) rows"] assms by (simp add: k_def)
  have sp: "swap_pivot rows = rows[0 := rows ! k, k := rows ! 0]"
    by (simp add: swap_pivot_def k_def Let_def)
  show "length (swap_pivot rows) = length rows"
    by (simp add: sp)
  show "set (swap_pivot rows) = set rows"
    using k assms by (simp add: sp)
  have "hd (swap_pivot rows) = rows ! k"
    using k assms by (cases "k = 0") (simp_all add: sp hd_conv_nth)
  moreover have "\<bar>hd (fst e)\<bar> \<le> \<bar>hd (fst (rows ! k))\<bar>" if "e \<in> set rows" for e
  proof -
    from that obtain j where j: "j < length rows" "rows ! j = e"
      by (auto simp: in_set_conv_nth)
    from argmax_abs_max [of j "map (\<lambda>e. hd (fst e)) rows"] j k show ?thesis
      by (simp add: k_def)
  qed
  ultimately show "\<forall>e\<in>set rows. \<bar>hd (fst e)\<bar> \<le> \<bar>hd (fst (hd (swap_pivot rows)))\<bar>"
    by simp
qed

lemma gauss_step:
  assumes "rows \<noteq> []"
  shows "gauss rows =
     (if hd (fst (hd (swap_pivot rows))) = 0 then Inl LinAlgError
      else bnd (gauss (map (eliminate (hd (swap_pivot rows))) (tl (swap_pivot rows))))
             (\<lambda>ys. Inr ((snd (hd (swap_pivot rows)) - dot (tl (fst (hd (swap_pivot rows)))) ys)
                         / hd (fst (hd (swap_pivot rows))) # ys)))"
  using assms by (subst gauss.simps) (simp add: Let_def)

lemma eliminate_length:
  "length (fst (eliminate p e)) = min (length (fst e) - 1) (length (fst p) - 1)"
  by (simp add: eliminate_def Let_def)

lemma gauss_sound:
  assumes "gauss rows = Inr ys" and "\<forall>e\<in>set rows. length (fst e) = length rows"
  shows "length ys = length rows \<and> (\<forall>e\<in>set rows. dot (fst e) ys = snd e)"
  using assms
proof (induction rows arbitrary: ys rule: gauss.induct)
  case (1 rows)
  show ?case
  proof (cases "rows = []")
    case True
    with "1.prems" show ?thesis by (simp add: gauss.simps)
  next
    case False
    define p where "p = hd (swap_pivot rows)"
    define rest where "rest = tl (swap_pivot rows)"
    note sw = swap_pivot_props [OF False]
    have sp: "swap_pivot rows = p # rest"
      using sw(1) False by (cases "swap_pivot rows") (simp_all add: p_def rest_def)
    have rows: "set rows = insert p (set rest)"
      using sw(2) by (simp add: sp)
    have len: "length rows = Suc (length rest)"
      using sw(1) by (simp add: sp)
    have wf: "length (fst e) = Suc (length rest)" if "e \<in> insert p (set rest)" for e
      using "1.prems"(2) that by (auto simp: rows len)
    from "1.prems"(1) False have nz: "hd (fst p) \<noteq> 0"
      by (auto simp: gauss_step p_def split: if_splits)
    from "1.prems"(1) False nz obtain zs where
      rec: "gauss (map (eliminate p) rest) = Inr zs"
      and ys: "ys = (snd p - dot (tl (fst p)) zs) / hd (fst p) # zs"
      by (auto simp: gauss_step p_def rest_def bnd_def split: sum.splits)
    have wf': "\<forall>e\<in>set (map (eliminate p) rest). length (fst e) = length (map (eliminate p) rest)"
      using wf by (auto simp: eliminate_length)
    from "1.IH" [OF False p_def rest_def nz rec wf']
    have lz: "length zs = length rest"
      and sol: "\<forall>e\<in>set rest. dot (fst (eliminate p e)) zs = snd (eliminate p e)"
      by simp_all
    obtain a pc where pc: "fst p = a # pc"
      using wf [of p] by (cases "fst p") simp_all
    have lpc: "length pc = length rest"
      using wf [of p] pc by simp
    have a: "a \<noteq> 0"
      using nz pc by simp
    have "dot (fst e) ys = snd e" if mem: "e \<in> insert p (set rest)" for e
    proof (cases "e = p")
      case True
      then show ?thesis using a by (simp add: ys pc)
    next
      case False
      with mem have e: "e \<in> set rest" by simp
      obtain c cs where cs: "fst e = c # cs"
        using wf [OF mem] by (cases "fst e") simp_all
      have lcs: "length cs = length rest"
        using wf [OF mem] cs by simp
      define m where "m = c / a"
      have el: "eliminate p e = (map2 (\<lambda>u v. u - m * v) cs pc, snd e - m * snd p)"
        by (simp add: eliminate_def Let_def cs pc m_def)
      from sol e have "dot (fst (eliminate p e)) zs = snd (eliminate p e)"
        by blast
      moreover have "dot (map2 (\<lambda>u v. u - m * v) cs pc) zs = dot cs zs - m * dot pc zs"
        by (rule dot_eliminate) (simp_all add: lcs lpc lz)
      ultimately have "dot cs zs - m * dot pc zs = snd e - m * snd p"
        by (simp add: el)
      then show ?thesis
        using a by (simp add: ys pc cs m_def field_simps)
    qed
    then show ?thesis
      by (simp add: rows len ys lz)
  qed
qed

lemma gauss_singular:
  assumes "gauss rows = Inl err" and "\<forall>e\<in>set rows. length (fst e) = length rows"
  shows "\<exists>v. length v = length rows \<and> (\<exists>a\<in>set v. a \<noteq> 0)
           \<and> (\<forall>e\<in>set rows. dot (fst e) v = 0)"
  using assms
proof (induction rows rule: gauss.induct)
  case (1 rows)
  show ?case
  proof (cases "rows = []")
    case True
    with "1.prems" show ?thesis by (simp add: gauss.simps)
  next
    case False
    define p where "p = hd (swap_pivot rows)"
    define rest where "rest = tl (swap_pivot rows)"
    note sw = swap_pivot_props [OF False]
    have sp: "swap_pivot rows = p # rest"
      using sw(1) False by (cases "swap_pivot rows") (simp_all add: p_def rest_def)
    have rows: "set rows = insert p (set rest)"
      using sw(2) by (simp add: sp)
    have len: "length rows = Suc (length rest)"
      using sw(1) by (simp add: sp)
    have wf: "length (fst e) = Suc (length rest)" if "e \<in> insert p (set rest)" for e
      using "1.prems"(2) that by (auto simp: rows len)
    show ?thesis
    proof (cases "hd (fst p) = 0")
      case True
      have lead: "hd (fst e) = 0" if "e \<in> insert p (set rest)" for e
        using sw(3) that True by (auto simp: rows p_def)
      have "dot (fst e) (1 # replicate (length rest) 0) = 0" if mem: "e \<in> insert p (set rest)" for e
      proof -
        obtain c cs where cs: "fst e = c # cs"
          using wf [OF mem] by (cases "fst e") simp_all
        with lead [OF mem] show ?thesis by simp
      qed
      then show ?thesis
        by (intro exI [of _ "1 # replicate (length rest) 0"]) (auto simp: rows len)
    next
      case nz: False
      from "1.prems"(1) False nz have rec: "gauss (map (eliminate p) rest) = Inl err"
        by (auto simp: gauss_step p_def rest_def bnd_def split: sum.splits)
      have wf': "\<forall>e\<in>set (map (eliminate p) rest). length (fst e) = length (map (eliminate p) rest)"
        using wf by (auto simp: eliminate_length)
      from "1.IH" [OF False p_def rest_def nz rec wf'] obtain w where
        IH: "length w = length (map (eliminate p) rest) \<and> (\<exists>a\<in>set w. a \<noteq> 0)
          \<and> (\<forall>e\<in>set (map (eliminate p) rest). dot (fst e) w = 0)" ..
      then have lw: "length w = length rest" and w: "\<exists>a\<in>set w. a \<noteq> 0"
        and ker: "\<forall>e\<in>set rest. dot (fst (eliminate p e)) w = 0"
        by auto
      obtain a pc where pc: "fst p = a # pc"
        using wf [of p] by (cases "fst p") simp_all
      have lpc: "length pc = length rest"
        using wf [of p] pc by simp
      have a: "a \<noteq> 0"
        using nz pc by simp
      define v where "v = (- dot pc w / a) # w"
      have "dot (fst e) v = 0" if mem: "e \<in> insert p (set rest)" for e
      proof (cases "e = p")
        case True
        then show ?thesis using a by (simp add: v_def pc)
      next
        case False
        with mem have e: "e \<in> set rest" by simp
        obtain c cs where cs: "fst e = c # cs"
          using wf [OF mem] by (cases "fst e") simp_all
        have lcs: "length cs = length rest"
          using wf [OF mem] cs by simp
        define m where "m = c / a"
        have el: "eliminate p e = (map2 (\<lambda>u v. u - m * v) cs pc, snd e - m * snd p)"
          by (simp add: eliminate_def Let_def cs pc m_def)
        from ker e have "dot (fst (eliminate p e)) w = 0"
          by blast
        moreover have "dot (map2 (\<lambda>u v. u - m * v) cs pc) w = dot cs w - m * dot pc w"
          by (rule dot_eliminate) (simp_all add: lcs lpc lw)
        ultimately have "dot cs w - m * dot pc w = 0"
          by (simp add: el)
        then show ?thesis
          using a by (simp add: v_def pc cs m_def field_simps)
      qed
      moreover from w have "\<exists>a\<in>set v. a \<noteq> 0"
        by (auto simp: v_def)
      ultimately show ?thesis
        by (intro exI [of _ v]) (simp add: rows len v_def lw)
    qed
  qed
qed

lemma solve_sound:
  assumes "solve A b = Inr y"
  shows "length y = length A \<and> (\<forall>i<length A. dot (A ! i) y = b ! i)"
proof -
  from assms have sq: "list_all (\<lambda>row. length row = length A) A" and lb: "length b = length A"
    and g: "gauss (zip A b) = Inr y"
    by (auto simp: solve_def split: if_splits)
  have wf: "\<forall>e\<in>set (zip A b). length (fst e) = length (zip A b)"
    using sq lb by (auto simp: list_all_iff dest: set_zip_leftD)
  from gauss_sound [OF g wf] have ly: "length y = length (zip A b)"
    and rows: "\<forall>e\<in>set (zip A b). dot (fst e) y = snd e"
    by simp_all
  have "dot (A ! i) y = b ! i" if "i < length A" for i
  proof -
    have "(A ! i, b ! i) \<in> set (zip A b)"
      using that lb by (auto simp: in_set_zip)
    with rows show ?thesis by fastforce
  qed
  with ly lb show ?thesis by simp
qed

lemma solve_singular:
  assumes "solve A b = Inl err" and "\<forall>i<length A. length (A ! i) = length A"
    and "length b = length A"
  shows "\<exists>v. length v = length A \<and> (\<exists>a\<in>set v. a \<noteq> 0) \<and> (\<forall>i<length A. dot (A ! i) v = 0)"
proof -
  have sq: "list_all (\<lambda>row. length row = length A) A"
    using assms(2) by (auto simp: list_all_iff in_set_conv_nth)
  with assms have g: "gauss (zip A b) = Inl err"
    by (simp add: solve_def)
  have wf: "\<forall>e\<in>set (zip A b). length (fst e) = length (zip A b)"
    using sq assms(3) by (auto simp: list_all_iff dest: set_zip_leftD)
  from gauss_singular [OF g wf] obtain v where
    v: "length v = length (zip A b) \<and> (\<exists>a\<in>set v. a \<noteq> 0)
        \<and> (\<forall>e\<in>set (zip A b). dot (fst e) v = 0)" ..
  have "dot (A ! i) v = 0" if "i < length A" for i
  proof -
    have "(A ! i, b ! i) \<in> set (zip A b)"
      using that assms(3) by (auto simp: in_set_zip)
    with v show ?thesis by fastforce
  qed
  with v assms(3) show ?thesis
    by (intro exI [of _ v]) simp
qed

section \<open>The finite-difference solver\<close>

subsection \<open>The loop builds the matrix of the specification\<close>

lemma py_index_nat: "i < n \<Longrightarrow> py_index n (int i) = Inr i"
  by (simp add: py_index_def)

lemma py_index_pred: "1 \<le> i \<Longrightarrow> i \<le> n \<Longrightarrow> py_index n (int i - 1) = Inr (i - 1)"
  by (auto simp: py_index_def Let_def nat_diff_distrib)

lemma py_index_succ: "i + 1 < n \<Longrightarrow> py_index n (int i + 1) = Inr (i + 1)"
  by (auto simp: py_index_def Let_def nat_add_distrib)

lemma py_index_last: "0 < n \<Longrightarrow> py_index n (- 1) = Inr (n - 1)"
  by (auto simp: py_index_def Let_def nat_diff_distrib)




lemma fd_row_result:
  assumes "length x = n" "length A = n" "length (A ! i) = n" "length b = n"
    and "1 \<le> i" "i + 1 < n"
  shows "fd_row h x i (A, b) =
     Inr (A[i := (A ! i)[i - 1 := 1 / h\<^sup>2 + (x ! i + 1) / (2 * h),
                         i := - 2 / h\<^sup>2 - 2,
                         i + 1 := 1 / h\<^sup>2 - (x ! i + 1) / (2 * h)]],
          b[i := (1 - (x ! i)\<^sup>2) * exp (- (x ! i))])"
proof -
  have i: "i < n" "i \<le> n" using assms by simp_all
  show ?thesis
    using assms i
    by (simp add: fd_row_def getitem_def setitem_def setitem2_def bnd_def Let_def
        py_index_nat py_index_pred py_index_succ)
qed

lemma fd_loop_result:
  assumes "length x = n" "length A = n" "\<forall>r<n. length (A ! r) = n" "length b = n"
    and "\<forall>i\<in>set is. 1 \<le> i \<and> i + 1 < n" "distinct is"
  shows "\<exists>A' b'. fd_loop h x is (A, b) = Inr (A', b') \<and> length A' = n \<and> length b' = n
     \<and> (\<forall>r<n. A' ! r =
           (if r \<in> set is
            then (A ! r)[r - 1 := 1 / h\<^sup>2 + (x ! r + 1) / (2 * h),
                         r := - 2 / h\<^sup>2 - 2,
                         r + 1 := 1 / h\<^sup>2 - (x ! r + 1) / (2 * h)]
            else A ! r))
     \<and> (\<forall>r<n. b' ! r = (if r \<in> set is then (1 - (x ! r)\<^sup>2) * exp (- (x ! r)) else b ! r))"
  using assms(2-)
proof (induction "is" arbitrary: A b)
  case Nil
  then show ?case by simp
next
  case (Cons i "is")
  define A1 where "A1 = A[i := (A ! i)[i - 1 := 1 / h\<^sup>2 + (x ! i + 1) / (2 * h),
                         i := - 2 / h\<^sup>2 - 2,
                         i + 1 := 1 / h\<^sup>2 - (x ! i + 1) / (2 * h)]]"
  define b1 where "b1 = b[i := (1 - (x ! i)\<^sup>2) * exp (- (x ! i))]"
  have i: "1 \<le> i" "i + 1 < n" "i < n" "i \<notin> set is"
    using Cons.prems by auto
  have step: "fd_row h x i (A, b) = Inr (A1, b1)"
    unfolding A1_def b1_def
    using Cons.prems(1-3) i assms(1) by (intro fd_row_result [where n = n]) auto
  have "length A1 = n" "\<forall>r<n. length (A1 ! r) = n" "length b1 = n"
    using Cons.prems(1-3) i(3) by (auto simp: A1_def b1_def nth_list_update)
  moreover have "\<forall>i\<in>set is. 1 \<le> i \<and> i + 1 < n" "distinct is"
    using Cons.prems by auto
  ultimately obtain A' b' where
    res: "fd_loop h x is (A1, b1) = Inr (A', b')" "length A' = n" "length b' = n"
    and A': "\<forall>r<n. A' ! r =
           (if r \<in> set is
            then (A1 ! r)[r - 1 := 1 / h\<^sup>2 + (x ! r + 1) / (2 * h),
                         r := - 2 / h\<^sup>2 - 2,
                         r + 1 := 1 / h\<^sup>2 - (x ! r + 1) / (2 * h)]
            else A1 ! r)"
    and b': "\<forall>r<n. b' ! r = (if r \<in> set is then (1 - (x ! r)\<^sup>2) * exp (- (x ! r)) else b1 ! r)"
    using Cons.IH [of A1 b1] by blast
  have "fd_loop h x (i # is) (A, b) = Inr (A', b')"
    by (simp add: step bnd_def res)
  moreover have "\<forall>r<n. A' ! r =
           (if r \<in> set (i # is)
            then (A ! r)[r - 1 := 1 / h\<^sup>2 + (x ! r + 1) / (2 * h),
                         r := - 2 / h\<^sup>2 - 2,
                         r + 1 := 1 / h\<^sup>2 - (x ! r + 1) / (2 * h)]
            else A ! r)"
    using A' i Cons.prems(1) by (auto simp: A1_def nth_list_update)
  moreover have "\<forall>r<n. b' ! r =
      (if r \<in> set (i # is) then (1 - (x ! r)\<^sup>2) * exp (- (x ! r)) else b ! r)"
    using b' i Cons.prems(3) by (auto simp: b1_def nth_list_update)
  ultimately show ?case
    using res(2,3) by blast
qed

lemma fd_system_result:
  assumes "0 < h" "grid h = Inr x"
  shows "\<exists>A b. fd_system h = Inr (x, A, b) \<and> length A = length x \<and> length b = length x
     \<and> (\<forall>i<length x. length (A ! i) = length x \<and> b ! i = spec_b h x i
                    \<and> (\<forall>j<length x. A ! i ! j = spec_A h x i j))"
proof -
  define n where "n = length x"
  have n: "2 \<le> n"
    using grid_length_ge2 [OF assms] by (simp add: n_def)
  define A2 where "A2 = (zeros2 n n)[0 := (zeros n)[0 := 1], n - 1 := (zeros n)[n - 1 := 1]]"
  define b2 where "b2 = (zeros n)[0 := 1, n - 1 := 2]"
  have init: "fd_system h = bnd (fd_loop h x [1..<n - 1] (A2, b2)) (\<lambda>Ab. Inr (x, fst Ab, snd Ab))"
    using n assms(2)
    by (simp add: fd_system_def bnd_def Let_def n_def [symmetric] setitem_def setitem2_def
        py_index_last py_index_nat [of 0 n, simplified] zeros_def zeros2_def A2_def b2_def)
  have "length A2 = n" "\<forall>r<n. length (A2 ! r) = n" "length b2 = n"
    by (auto simp: A2_def b2_def zeros_def zeros2_def nth_list_update)
  moreover have "\<forall>i\<in>set [1..<n - 1]. 1 \<le> i \<and> i + 1 < n" "distinct [1..<n - 1]"
    by auto
  ultimately obtain A b where
    res: "fd_loop h x [1..<n - 1] (A2, b2) = Inr (A, b)" "length A = n" "length b = n"
    and A: "\<forall>r<n. A ! r =
           (if r \<in> set [1..<n - 1]
            then (A2 ! r)[r - 1 := 1 / h\<^sup>2 + (x ! r + 1) / (2 * h),
                         r := - 2 / h\<^sup>2 - 2,
                         r + 1 := 1 / h\<^sup>2 - (x ! r + 1) / (2 * h)]
            else A2 ! r)"
    and b: "\<forall>r<n. b ! r =
           (if r \<in> set [1..<n - 1] then (1 - (x ! r)\<^sup>2) * exp (- (x ! r)) else b2 ! r)"
    using fd_loop_result [of x n A2 b2 "[1..<n - 1]" h] by (auto simp: n_def)
  have rowlen: "length (A ! i) = n" if "i < n" for i
    using A that \<open>\<forall>r<n. length (A2 ! r) = n\<close> by auto
  have rhs: "b ! i = spec_b h x i" if "i < n" for i
    using b that n by (auto simp: spec_b_def b2_def zeros_def n_def [symmetric] nth_list_update)
  have ent: "A ! i ! j = spec_A h x i j" if lt: "i < n" "j < n" for i j
  proof -
    consider "i = 0" | "i = n - 1" "i \<noteq> 0" | "1 \<le> i" "i < n - 1"
      using lt by linarith
    then show ?thesis
    proof cases
      case 1
      with A lt n show ?thesis
        by (auto simp: spec_A_def A2_def zeros_def zeros2_def n_def [symmetric] nth_list_update)
    next
      case 2
      with A lt n show ?thesis
        by (auto simp: spec_A_def A2_def zeros_def zeros2_def n_def [symmetric] nth_list_update)
    next
      case 3
      with A lt n show ?thesis
        by (auto simp: spec_A_def A2_def zeros_def zeros2_def n_def [symmetric] nth_list_update)
    qed
  qed
  show ?thesis
    using res rowlen rhs ent by (intro exI [of _ A] exI [of _ b]) (simp add: init bnd_def n_def)
qed

subsection \<open>Rows applied to a vector\<close>

lemma sum_three:
  fixes g :: "nat \<Rightarrow> real"
  assumes "1 \<le> i" "i + 1 < n" and "\<forall>j<n. j \<noteq> i - 1 \<and> j \<noteq> i \<and> j \<noteq> i + 1 \<longrightarrow> g j = 0"
  shows "(\<Sum>j<n. g j) = g (i - 1) + g i + g (i + 1)"
proof -
  have "sum g {i - 1, i, i + 1} = sum g {..<n}"
    using assms by (intro sum.mono_neutral_left) auto
  moreover have "i - 1 \<noteq> i" "i - 1 \<noteq> i + 1"
    using assms(1) by simp_all
  then have "sum g {i - 1, i, i + 1} = g (i - 1) + g i + g (i + 1)"
    by simp
  ultimately show ?thesis by simp
qed

lemma sum_one:
  fixes g :: "nat \<Rightarrow> real"
  assumes "i < n" and "\<forall>j<n. j \<noteq> i \<longrightarrow> g j = 0"
  shows "(\<Sum>j<n. g j) = g i"
proof -
  have "sum g {i} = sum g {..<n}"
    using assms by (intro sum.mono_neutral_left) auto
  then show ?thesis by simp
qed

lemma spec_row_boundary:
  assumes "length row = length x" "length y = length x" "\<forall>j<length x. row ! j = spec_A h x i j"
    and "i = 0 \<or> i = length x - 1" "i < length x"
  shows "dot row y = y ! i"
proof -
  have "dot row y = (\<Sum>j<length x. spec_A h x i j * y ! j)"
    using assms(1-3) by (simp add: dot_sum)
  also have "\<dots> = spec_A h x i i * y ! i"
    using assms(4,5) by (intro sum_one) (auto simp: spec_A_def)
  also have "\<dots> = y ! i"
    using assms(4) by (auto simp: spec_A_def)
  finally show ?thesis .
qed

lemma spec_row_interior:
  assumes "length row = length x" "length y = length x" "\<forall>j<length x. row ! j = spec_A h x i j"
    and "1 \<le> i" "i + 1 < length x"
  shows "dot row y =
     (1 / h\<^sup>2 + (x ! i + 1) / (2 * h)) * y ! (i - 1) + (- 2 / h\<^sup>2 - 2) * y ! i
     + (1 / h\<^sup>2 - (x ! i + 1) / (2 * h)) * y ! (i + 1)"
proof -
  have "dot row y = (\<Sum>j<length x. spec_A h x i j * y ! j)"
    using assms(1-3) by (simp add: dot_sum)
  also have "\<dots> = spec_A h x i (i - 1) * y ! (i - 1) + spec_A h x i i * y ! i
      + spec_A h x i (i + 1) * y ! (i + 1)"
    using assms(4,5) by (intro sum_three) (auto simp: spec_A_def)
  also have "\<dots> = (1 / h\<^sup>2 + (x ! i + 1) / (2 * h)) * y ! (i - 1) + (- 2 / h\<^sup>2 - 2) * y ! i
     + (1 / h\<^sup>2 - (x ! i + 1) / (2 * h)) * y ! (i + 1)"
    using assms(4,5) by (auto simp: spec_A_def)
  finally show ?thesis .
qed

subsection \<open>The system has exactly one solution\<close>

text \<open>
  The maximum principle: where an entry of largest absolute value sits in a row whose
  diagonal strictly dominates, that entry is zero. With it, in the exact arithmetic of the
  model, the solver returns for every positive step, and what it returns satisfies every
  row of the system.
\<close>

lemma dominant_zero:
  fixes l d u a m b :: real
  assumes eq: "l * a + d * m + u * b = 0" and d: "d = - (l + u) - 2"
    and l: "0 \<le> l" and u: "0 \<le> u" and a: "\<bar>a\<bar> \<le> \<bar>m\<bar>" and b: "\<bar>b\<bar> \<le> \<bar>m\<bar>"
  shows "m = 0"
proof -
  have la: "\<bar>l * a\<bar> \<le> l * \<bar>m\<bar>"
    using l a by (simp add: abs_mult mult_left_mono)
  have ub: "\<bar>u * b\<bar> \<le> u * \<bar>m\<bar>"
    using u b by (simp add: abs_mult mult_left_mono)
  have "(l + u + 2) * m = l * a + u * b"
    using eq by (simp add: d algebra_simps)
  then have "\<bar>(l + u + 2) * m\<bar> = \<bar>l * a + u * b\<bar>"
    by simp
  moreover have "\<bar>l + u + 2\<bar> = l + u + 2"
    using l u by simp
  then have "\<bar>(l + u + 2) * m\<bar> = (l + u + 2) * \<bar>m\<bar>"
    by (simp only: abs_mult)
  then have "\<bar>(l + u + 2) * m\<bar> = l * \<bar>m\<bar> + u * \<bar>m\<bar> + 2 * \<bar>m\<bar>"
    by (simp only: distrib_right)
  ultimately have "l * \<bar>m\<bar> + u * \<bar>m\<bar> + 2 * \<bar>m\<bar> \<le> l * \<bar>m\<bar> + u * \<bar>m\<bar>"
    using la ub by linarith
  then show ?thesis by simp
qed

lemma fd_coefficients_nonneg:
  assumes "0 < h" "grid h = Inr x" "1 \<le> i" "i + 1 < length x"
  shows "0 \<le> 1 / h\<^sup>2 + (x ! i + 1) / (2 * h)" "0 \<le> 1 / h\<^sup>2 - (x ! i + 1) / (2 * h)"
proof -
  note xi = grid_interior_lt_1 [OF assms(1,2,4)]
  show "0 \<le> 1 / h\<^sup>2 + (x ! i + 1) / (2 * h)"
    using assms(1) xi(2) by simp
  have "real 1 * h \<le> real i * h"
    using assms(1,3) by (intro mult_right_mono) simp_all
  with xi have h1: "h < 1" by simp
  have "(x ! i + 1) * h \<le> 2 * h"
    using xi(3) assms(1) by (intro mult_right_mono) simp_all
  with h1 have le: "(x ! i + 1) * h \<le> 2" by simp
  have "(x ! i + 1) / (2 * h) = ((x ! i + 1) * h) / (2 * h\<^sup>2)"
    using assms(1) by (simp add: power2_eq_square)
  also have "\<dots> \<le> 2 / (2 * h\<^sup>2)"
    using le assms(1) by (intro divide_right_mono) simp_all
  also have "\<dots> = 1 / h\<^sup>2" by simp
  finally show "0 \<le> 1 / h\<^sup>2 - (x ! i + 1) / (2 * h)" by simp
qed

lemma fd_nonsingular:
  assumes "0 < h" "grid h = Inr x"
    and "\<forall>i<length x. length (A ! i) = length x \<and> (\<forall>j<length x. A ! i ! j = spec_A h x i j)"
    and "length v = length x" "\<forall>i<length x. dot (A ! i) v = 0"
  shows "\<forall>a\<in>set v. a = 0"
proof -
  define m where "m = argmax_abs v"
  have n: "2 \<le> length x"
    using grid_length_ge2 [OF assms(1,2)] .
  then have "v \<noteq> []" using assms(4) by auto
  then have m: "m < length x"
    using argmax_abs_less [of v] assms(4) by (simp add: m_def)
  have mx: "\<bar>v ! j\<bar> \<le> \<bar>v ! m\<bar>" if "j < length x" for j
    using argmax_abs_max [of j v] that assms(4) by (simp add: m_def)
  have row: "length (A ! m) = length x" "\<forall>j<length x. A ! m ! j = spec_A h x m j"
    using assms(3) m by simp_all
  have zero: "dot (A ! m) v = 0"
    using assms(5) m by simp
  have "v ! m = 0"
  proof (cases "m = 0 \<or> m = length x - 1")
    case True
    from spec_row_boundary [OF row(1) assms(4) row(2) True m] zero show ?thesis by simp
  next
    case False
    then have int: "1 \<le> m" "m + 1 < length x"
      using m by auto
    note c = fd_coefficients_nonneg [OF assms(1,2) int]
    from spec_row_interior [OF row(1) assms(4) row(2) int] zero
    have eq: "(1 / h\<^sup>2 + (x ! m + 1) / (2 * h)) * v ! (m - 1) + (- 2 / h\<^sup>2 - 2) * v ! m
       + (1 / h\<^sup>2 - (x ! m + 1) / (2 * h)) * v ! (m + 1) = 0"
      by simp
    have d: "- 2 / h\<^sup>2 - 2
        = - ((1 / h\<^sup>2 + (x ! m + 1) / (2 * h)) + (1 / h\<^sup>2 - (x ! m + 1) / (2 * h))) - 2"
      by simp
    have nb: "\<bar>v ! (m - 1)\<bar> \<le> \<bar>v ! m\<bar>" "\<bar>v ! (m + 1)\<bar> \<le> \<bar>v ! m\<bar>"
      using int by (simp_all add: mx)
    show ?thesis
      by (rule dominant_zero [OF eq d c nb])
  qed
  then have "v ! j = 0" if "j < length x" for j
    using mx [OF that] by simp
  then show ?thesis
    using assms(4) by (auto simp: in_set_conv_nth)
qed

lemma fd_method_result:
  assumes "0 < h"
  shows "\<exists>x A b y. grid h = Inr x \<and> fd_system h = Inr (x, A, b)
     \<and> length A = length x \<and> length b = length x
     \<and> (\<forall>i<length x. length (A ! i) = length x \<and> b ! i = spec_b h x i
                    \<and> (\<forall>j<length x. A ! i ! j = spec_A h x i j))
     \<and> finite_difference_method h = Inr (x, y)
     \<and> length y = length x \<and> y ! 0 = 1 \<and> y ! (length x - 1) = 2
     \<and> (\<forall>i. 1 \<le> i \<and> i + 1 < length x \<longrightarrow>
           (1 / h\<^sup>2 + (x ! i + 1) / (2 * h)) * y ! (i - 1) + (- 2 / h\<^sup>2 - 2) * y ! i
           + (1 / h\<^sup>2 - (x ! i + 1) / (2 * h)) * y ! (i + 1)
           = (1 - (x ! i)\<^sup>2) * exp (- (x ! i)))"
proof -
  obtain x where g: "grid h = Inr x"
    using grid_pos [OF assms] by blast
  have n: "2 \<le> length x"
    using grid_length_ge2 [OF assms g] .
  from fd_system_result [OF assms g] obtain A b where
    sys: "fd_system h = Inr (x, A, b)" and lA: "length A = length x" and lb: "length b = length x"
    and ent: "\<forall>i<length x. length (A ! i) = length x \<and> b ! i = spec_b h x i
                    \<and> (\<forall>j<length x. A ! i ! j = spec_A h x i j)"
    by blast
  have ent': "\<forall>i<length x. length (A ! i) = length x \<and> (\<forall>j<length x. A ! i ! j = spec_A h x i j)"
    using ent by simp
  obtain y where y: "solve A b = Inr y"
  proof (cases "solve A b")
    case (Inl err)
    have "\<forall>i<length A. length (A ! i) = length A" "length b = length A"
      using ent lA lb by simp_all
    from solve_singular [OF Inl this] obtain v where
      v: "length v = length A \<and> (\<exists>a\<in>set v. a \<noteq> 0) \<and> (\<forall>i<length A. dot (A ! i) v = 0)" ..
    then have "length v = length x" "\<forall>i<length x. dot (A ! i) v = 0"
      using lA by simp_all
    from fd_nonsingular [OF assms g ent' this] v have False by blast
    then show ?thesis ..
  next
    case (Inr y)
    then show ?thesis by (rule that)
  qed
  from solve_sound [OF y] lA have ly: "length y = length x"
    and rows: "\<forall>i<length x. dot (A ! i) y = b ! i"
    by simp_all
  have fd: "finite_difference_method h = Inr (x, y)"
    by (simp add: finite_difference_method_def sys bnd_def y)
  have row: "length (A ! i) = length x" "\<forall>j<length x. A ! i ! j = spec_A h x i j"
    "dot (A ! i) y = spec_b h x i" if "i < length x" for i
    using ent rows that by simp_all
  have first: "0 < length x" and final: "length x - 1 < length x" "length x - 1 \<noteq> 0"
    using n by auto
  have "dot (A ! 0) y = y ! 0"
    using first by (intro spec_row_boundary [OF row(1) ly row(2)]) simp_all
  with row(3) [OF first] have y0: "y ! 0 = 1"
    by (simp add: spec_b_def)
  have "dot (A ! (length x - 1)) y = y ! (length x - 1)"
    using final by (intro spec_row_boundary [OF row(1) ly row(2)]) simp_all
  with row(3) [OF final(1)] final(2) have yn: "y ! (length x - 1) = 2"
    by (simp add: spec_b_def)
  have int: "(1 / h\<^sup>2 + (x ! i + 1) / (2 * h)) * y ! (i - 1) + (- 2 / h\<^sup>2 - 2) * y ! i
           + (1 / h\<^sup>2 - (x ! i + 1) / (2 * h)) * y ! (i + 1)
           = (1 - (x ! i)\<^sup>2) * exp (- (x ! i))" if i: "1 \<le> i" "i + 1 < length x" for i
  proof -
    have lt: "i < length x" using i by simp
    have "dot (A ! i) y = (1 / h\<^sup>2 + (x ! i + 1) / (2 * h)) * y ! (i - 1) + (- 2 / h\<^sup>2 - 2) * y ! i
           + (1 / h\<^sup>2 - (x ! i + 1) / (2 * h)) * y ! (i + 1)"
      by (rule spec_row_interior [OF row(1) [OF lt] ly row(2) [OF lt] i])
    moreover have "dot (A ! i) y = spec_b h x i"
      by (rule row(3) [OF lt])
    moreover have "spec_b h x i = (1 - (x ! i)\<^sup>2) * exp (- (x ! i))"
      using i by (auto simp: spec_b_def)
    ultimately show ?thesis by (simp only:)
  qed
  have "grid h = Inr x \<and> fd_system h = Inr (x, A, b)
     \<and> length A = length x \<and> length b = length x
     \<and> (\<forall>i<length x. length (A ! i) = length x \<and> b ! i = spec_b h x i
                    \<and> (\<forall>j<length x. A ! i ! j = spec_A h x i j))
     \<and> finite_difference_method h = Inr (x, y)
     \<and> length y = length x \<and> y ! 0 = 1 \<and> y ! (length x - 1) = 2
     \<and> (\<forall>i. 1 \<le> i \<and> i + 1 < length x \<longrightarrow>
           (1 / h\<^sup>2 + (x ! i + 1) / (2 * h)) * y ! (i - 1) + (- 2 / h\<^sup>2 - 2) * y ! i
           + (1 / h\<^sup>2 - (x ! i + 1) / (2 * h)) * y ! (i + 1)
           = (1 - (x ! i)\<^sup>2) * exp (- (x ! i)))"
    using g sys lA lb ent fd ly y0 yn int by (intro conjI allI impI) (assumption | blast)+
  then show ?thesis
    by (intro exI)
qed

text \<open>
  The interior row in divided differences: the second difference, minus \<open>(x\<^sub>i + 1)\<close> times
  the central first difference, minus \<open>2 y\<^sub>i\<close>. The first-derivative term enters the rows of
  \<open>finite_difference_method\<close> with the sign opposite to the one it has in \<open>ode_system\<close> and
  in \<open>residual_squared\<close>, which both use \<open>y'' + (x + 1) y' - 2 y\<close>.
\<close>

lemma fd_row_as_differences:
  fixes h x ym y0 yp :: real
  assumes "h \<noteq> 0"
  shows "(1 / h\<^sup>2 + (x + 1) / (2 * h)) * ym + (- 2 / h\<^sup>2 - 2) * y0 + (1 / h\<^sup>2 - (x + 1) / (2 * h)) * yp
     = (yp - 2 * y0 + ym) / h\<^sup>2 - (x + 1) * ((yp - ym) / (2 * h)) - 2 * y0"
  using assms by (simp add: field_simps power2_eq_square)

subsection \<open>Evaluation at small grids\<close>

lemmas fd_eval =
  grid_def arange_def upt_rec bnd_def zeros_def zeros2_def py_index_def getitem_def
  setitem_def setitem2_def fd_system_def fd_row_def finite_difference_method_def solve_def
  gauss.simps swap_pivot_def eliminate_def dot_def Let_def power2_eq_square


lemma fd_system_half:
  "fd_system (1 / 2)
     = Inr ([0, 1 / 2, 1], [[1, 0, 0], [11 / 2, - 10, 5 / 2], [0, 0, 1]],
            [1, 3 * exp (- (1 / 2)) / 4, 2])"
  by (simp add: fd_eval)

text \<open>
  C9: for \<open>h = 1\<close> the grid has the two points \<open>0\<close> and \<open>1\<close>, both rows of the linear
  system are boundary rows, and \<open>finite_difference_method\<close> returns exactly \<open>y = [1, 2]\<close>.
\<close>

theorem fd_two_points:
  "finite_difference_method 1 = Inr ([0, 1], [1, 2])"
  by (simp add: fd_eval)

section \<open>The shooting solver\<close>




lemmas shoot_eval = grid_def arange_def upt_rec bnd_def py_index_def getitem_def Let_def
  shooting_method_def root_scalar_def boundary_residual_def solve_shooting_def solve_ivp_def diff_def
  straight_line_def frozen_def secant_step_def cut_short_def no_progress_def
  brentq_xtol_def brentq_rtol_def brentq_maxiter_def




text \<open>
  C7: when the residuals at \<open>-10\<close> and at \<open>10\<close> have the same sign, the root finder raises
  the library's \<^verbatim>\<open>ValueError\<close> for a bracket without sign change, whatever the iteration
  would do, \<open>shooting_method\<close> raises it too, and the script ends with it: no table and no
  plot are produced, and no other bracket is tried.
\<close>

theorem no_sign_change_is_fatal:
  assumes "grid h = Inr x"
    and "boundary_residual rk x (- 10) = Inr ra" and "boundary_residual rk x 10 = Inr rb"
    and "0 < ra * rb"
  shows "root_scalar brent (boundary_residual rk x) (- 10, 10) = Inl ValueError_bracket
     \<and> shooting_method rk brent h = Inl ValueError_bracket
     \<and> script rk brent opt h = Inl ValueError_bracket"
proof -
  have r: "root_scalar brent (boundary_residual rk x) (- 10, 10) = Inl ValueError_bracket"
    using assms(2-4) by (simp add: root_scalar_def bnd_def Let_def)
  then have s: "shooting_method rk brent h = Inl ValueError_bracket"
    using assms(1) by (simp add: shooting_method_def bnd_def)
  then have "script rk brent opt h = Inl ValueError_bracket"
    by (simp add: script_def bnd_def)
  with r s show ?thesis by simp
qed

text \<open>
  C7 for the script's step \<open>h = 1/10\<close> with the integrator that stays at the initial
  value: the residual is \<open>-1\<close> at both ends of the bracket and \<open>main\<close> ends with the error.
\<close>

theorem no_sign_change_is_fatal_witness:
  "grid (1 / 10) = Inr [0, 1 / 10, 1 / 5, 3 / 10, 2 / 5, 1 / 2, 3 / 5, 7 / 10, 4 / 5, 9 / 10, 1]
   \<and> boundary_residual frozen [0, 1 / 10, 1 / 5, 3 / 10, 2 / 5, 1 / 2, 3 / 5, 7 / 10, 4 / 5, 9 / 10, 1] (- 10)
       = Inr (- 1)
   \<and> boundary_residual frozen [0, 1 / 10, 1 / 5, 3 / 10, 2 / 5, 1 / 2, 3 / 5, 7 / 10, 4 / 5, 9 / 10, 1] 10
       = Inr (- 1)
   \<and> (0::real) < (- 1) * (- 1)
   \<and> shooting_method frozen secant_step (1 / 10) = Inl ValueError_bracket
   \<and> main frozen secant_step line_fit = Inl ValueError_bracket"
proof -
  let ?x = "[0, 1 / 10, 1 / 5, 3 / 10, 2 / 5, 1 / 2, 3 / 5, 7 / 10, 4 / 5, 9 / 10, 1 :: real]"
  have g: "grid (1 / 10) = Inr ?x"
    by (simp add: grid_def arange_def upt_rec)
  have a: "boundary_residual frozen ?x (- 10) = Inr (- 1)"
    by (simp add: shoot_eval)
  have b: "boundary_residual frozen ?x 10 = Inr (- 1)"
    by (simp add: shoot_eval)
  have p: "(0::real) < (- 1) * (- 1)" by simp
  from no_sign_change_is_fatal [OF g a b p, of secant_step line_fit] g a b p show ?thesis
    by (simp add: main_def)
qed

section \<open>The variational solver\<close>

lemma variational_method_result:
  assumes "grid h = Inr x"
  shows "variational_method opt h =
     Inr (x, map (\<lambda>t. trial t (res_x (opt (residual_squared x) (0, 0, 0) cons_fun))) x)"
  using assms by (simp add: variational_method_def bnd_def minimize_def Let_def)

lemma trapz_sum:
  assumes "length ys = length xs"
  shows "trapz ys xs = (\<Sum>i<length xs - 1. (xs ! (i + 1) - xs ! i) * (ys ! (i + 1) + ys ! i) / 2)"
proof -
  let ?l = "map2 (\<lambda>d s. d * s / 2) (diff xs) (map2 (\<lambda>b a. b + a) (tl ys) (butlast ys))"
  have len: "length ?l = length xs - 1"
    using assms by (simp add: diff_def)
  have "trapz ys xs = (\<Sum>i = 0..<length ?l. ?l ! i)"
    unfolding trapz_def by (rule sum_list_sum_nth)
  also have "\<dots> = (\<Sum>i = 0..<length xs - 1. (xs ! (i + 1) - xs ! i) * (ys ! (i + 1) + ys ! i) / 2)"
    unfolding len
  proof (rule sum.cong [OF refl])
    fix i assume "i \<in> {0..<length xs - 1}"
    then have i: "i < length xs - 1" by simp
    then show "?l ! i = (xs ! (i + 1) - xs ! i) * (ys ! (i + 1) + ys ! i) / 2"
      using assms by (simp add: diff_def nth_tl nth_butlast)
  qed
  finally show ?thesis
    by (simp add: atLeast0LessThan)
qed

lemma trial_derivatives:
  "((\<lambda>s. trial s p) has_real_derivative trial' t p) (at t)"
  "((\<lambda>s. trial' s p) has_real_derivative trial'' t p) (at t)"
proof -
  obtain a b c where p: "p = (a, b, c)" by (cases p)
  show "((\<lambda>s. trial s p) has_real_derivative trial' t p) (at t)"
    unfolding p trial_def trial'_def by (auto intro!: derivative_eq_intros simp: power2_eq_square)
  show "((\<lambda>s. trial' s p) has_real_derivative trial'' t p) (at t)"
    unfolding p trial'_def trial''_def by (auto intro!: derivative_eq_intros)
qed

lemma residual_squared_trapezoid:
  "residual_squared xs p =
     (\<Sum>i<length xs - 1. (xs ! (i + 1) - xs ! i)
        * ((spec_residual p (xs ! (i + 1)))\<^sup>2 + (spec_residual p (xs ! i))\<^sup>2) / 2)"
proof -
  obtain a b c where p: "p = (a, b, c)" by (cases p)
  have "residual_squared xs p = trapz (map (\<lambda>x. (spec_residual p x)\<^sup>2) xs) xs"
    by (simp add: p residual_squared_def spec_residual_def trial'_def trial''_def Let_def comp_def)
  also have "\<dots> = (\<Sum>i<length xs - 1. (xs ! (i + 1) - xs ! i)
        * (map (\<lambda>x. (spec_residual p x)\<^sup>2) xs ! (i + 1)
           + map (\<lambda>x. (spec_residual p x)\<^sup>2) xs ! i) / 2)"
    by (rule trapz_sum) simp
  also have "\<dots> = (\<Sum>i<length xs - 1. (xs ! (i + 1) - xs ! i)
        * ((spec_residual p (xs ! (i + 1)))\<^sup>2 + (spec_residual p (xs ! i))\<^sup>2) / 2)"
    by (rule sum.cong [OF refl]) simp
  finally show ?thesis .
qed

lemmas var_eval = grid_def arange_def upt_rec bnd_def Let_def variational_method_def minimize_def
  trial_def line_fit_def gives_up_def

text \<open>
  C4: when \<open>variational_method\<close> returns \<open>(x, y)\<close>, \<open>x\<close> is the grid; the trial function is
  \<open>1\<close> at \<open>0\<close> for all parameters, and the constraint function vanishes exactly when
  \<open>1 + a + b + c = 2\<close>; \<open>trial'\<close> and \<open>trial''\<close> are the first and second derivative of the
  trial function; the objective handed to the optimiser is the trapezoid rule over the
  grid for the squared residual, a function of all three parameters; the optimiser starts
  from \<open>(0, 0, 0\<close>) and receives the constraint; and \<open>y\<close> is the trial function with the
  parameters found, at every grid point.
\<close>

theorem variational_structure:
  assumes "variational_method opt h = Inr (x, y)"
  shows "grid h = Inr x
     \<and> (\<forall>p. trial 0 p = 1)
     \<and> (\<forall>a b c. cons_fun (a, b, c) = 0 \<longleftrightarrow> 1 + a + b + c = 2)
     \<and> (\<forall>p t. ((\<lambda>s. trial s p) has_real_derivative trial' t p) (at t)
             \<and> ((\<lambda>s. trial' s p) has_real_derivative trial'' t p) (at t))
     \<and> (\<forall>p. residual_squared x p =
           (\<Sum>i<length x - 1. (x ! (i + 1) - x ! i)
              * ((spec_residual p (x ! (i + 1)))\<^sup>2 + (spec_residual p (x ! i))\<^sup>2) / 2))
     \<and> y = map (\<lambda>t. trial t (res_x (opt (residual_squared x) (0, 0, 0) cons_fun))) x"
proof -
  from assms obtain x' where g: "grid h = Inr x'"
    by (cases "grid h") (simp_all add: variational_method_def bnd_def)
  from assms variational_method_result [OF g, of opt] have xy: "x' = x"
    "y = map (\<lambda>t. trial t (res_x (opt (residual_squared x) (0, 0, 0) cons_fun))) x"
    by auto
  have t0: "\<forall>p. trial 0 p = 1"
    by (simp add: trial_def split: prod.splits)
  have t1: "\<forall>a b c. cons_fun (a, b, c) = 0 \<longleftrightarrow> 1 + a + b + c = 2"
    by (simp add: cons_fun_def trial_def)
  have g': "grid h = Inr x"
    using g xy(1) by simp
  have d: "\<forall>p t. ((\<lambda>s. trial s p) has_real_derivative trial' t p) (at t)
             \<and> ((\<lambda>s. trial' s p) has_real_derivative trial'' t p) (at t)"
    using trial_derivatives by blast
  have rs: "\<forall>p. residual_squared x p =
           (\<Sum>i<length x - 1. (x ! (i + 1) - x ! i)
              * ((spec_residual p (x ! (i + 1)))\<^sup>2 + (spec_residual p (x ! i))\<^sup>2) / 2)"
    using residual_squared_trapezoid by blast
  from g' t0 t1 d rs xy(2) show ?thesis
    by (intro conjI) assumption+
qed

text \<open>
  C4 at \<open>h = 1/2\<close> with the optimiser that returns the line \<open>1 + x\<close>.
\<close>

theorem variational_structure_witness:
  "variational_method line_fit (1 / 2) = Inr ([0, 1 / 2, 1], [1, 3 / 2, 2])
   \<and> grid (1 / 2) = Inr [0, 1 / 2, 1]
   \<and> trial 0 (1, 0, 0) = 1 \<and> cons_fun (1, 0, 0) = 0
   \<and> [1, 3 / 2, 2] = map (\<lambda>t. trial t (1, 0, 0)) [0, 1 / 2, 1]"
proof -
  have v: "variational_method line_fit (1 / 2) = Inr ([0, 1 / 2, 1], [1, 3 / 2, 2])"
    by (simp add: var_eval)
  from variational_structure [OF v] v show ?thesis
    by (simp add: trial_def cons_fun_def)
qed




section \<open>Properties of the script\<close>






section \<open>The step size of the script\<close>

text \<open>
  At \<open>h = 1/10\<close> the grid has eleven points. The finite-difference vector has eleven
  entries, the first \<open>1\<close> and the last \<open>2\<close>. The variational vector has eleven entries, the
  first \<open>1\<close>, and the last is the trial function at \<open>1\<close> for the parameters the optimiser
  returns. How close that value, and the last entry of the shooting vector, come to \<open>2\<close> is
  decided inside the library's optimiser, integrator and root iteration.
\<close>

lemma fd_at_tenth:
  "\<exists>y. finite_difference_method (1 / 10)
         = Inr ([0, 1 / 10, 1 / 5, 3 / 10, 2 / 5, 1 / 2, 3 / 5, 7 / 10, 4 / 5, 9 / 10, 1], y)
       \<and> length y = 11 \<and> y ! 0 = 1 \<and> y ! 10 = 2"
proof -
  have g: "grid (1 / 10) = Inr [0, 1 / 10, 1 / 5, 3 / 10, 2 / 5, 1 / 2, 3 / 5, 7 / 10, 4 / 5, 9 / 10, 1]"
    by (simp add: grid_def arange_def upt_rec)
  from fd_method_result [of "1 / 10"] obtain x y where
    "grid (1 / 10) = Inr x" "finite_difference_method (1 / 10) = Inr (x, y)"
    "length y = length x" "y ! 0 = 1" "y ! (length x - 1) = 2"
    by auto
  with g show ?thesis by (auto simp: eval_nat_numeral)
qed

lemma variational_at_tenth:
  "\<exists>y. variational_method opt (1 / 10)
         = Inr ([0, 1 / 10, 1 / 5, 3 / 10, 2 / 5, 1 / 2, 3 / 5, 7 / 10, 4 / 5, 9 / 10, 1], y)
       \<and> length y = 11 \<and> y ! 0 = 1
       \<and> y ! 10 = trial 1 (res_x (opt (residual_squared
            [0, 1 / 10, 1 / 5, 3 / 10, 2 / 5, 1 / 2, 3 / 5, 7 / 10, 4 / 5, 9 / 10, 1]) (0, 0, 0)
            cons_fun))"
proof -
  have g: "grid (1 / 10) = Inr [0, 1 / 10, 1 / 5, 3 / 10, 2 / 5, 1 / 2, 3 / 5, 7 / 10, 4 / 5, 9 / 10, 1]"
    by (simp add: grid_def arange_def upt_rec)
  have "trial 0 p = 1" for p
    by (simp add: trial_def split: prod.splits)
  then show ?thesis
    by (simp add: variational_method_result [OF g] eval_nat_numeral)
qed

end
